theory Spec2Isabelle
  imports Main "HOL-Library.Word" "HOL-Library.List_Lexorder" "HOL-Library.Char_ord"
begin

section \<open>JavaScript values and errors\<close>

text \<open>
  The helpers of \<^verbatim>\<open>src/helpers/ethSigUtil.js\<close> work on plain JavaScript data. A value is
  one of the shapes below; a \<^verbatim>\<open>Buffer\<close> is a list of bytes, a number is an integer
  (fractions, \<^verbatim>\<open>NaN\<close> and infinities are outside the model), and an object is a plain
  object: the list of its own properties in insertion order, with \<^verbatim>\<open>Object.prototype\<close>
  as its prototype. \<open>JBuiltin n\<close> is the value a plain object inherits under the name
  \<open>n\<close>: a built-in function of \<^verbatim>\<open>Object.prototype\<close>, or, for \<^verbatim>\<open>__proto__\<close>, the
  prototype object itself. A string is the list of its UTF-16 code units; the model has
  the code units below 256 (Latin-1), compared and ordered by code.
\<close>

datatype jsval =
    JUndefined
  | JNull
  | JBool bool
  | JNum int
  | JStr string
  | JBuf "8 word list"
  | JArr "jsval list"
  | JObj "(string \<times> jsval) list"
  | JBuiltin string

type_synonym bytes = "8 word list"

text \<open>
  Every \<^verbatim>\<open>throw\<close> of the source is a constructor; \<open>TypeError\<close> is the error the
  JavaScript runtime raises when a property of \<^verbatim>\<open>undefined\<close> or \<^verbatim>\<open>null\<close> is read, a
  non-function is called, a value that is not iterable is iterated or an object cannot be
  converted to a string; \<open>LibraryError\<close> is any exception raised inside an external
  primitive (ethereumjs-util, ethereumjs-abi); \<open>OutsideModel\<close> marks a step the model
  does not cover.
\<close>

datatype error =
    UnknownType string
  | ArraysUnimplemented
  | InvalidInput
  | NormalizeError string
  | MalformedSignature
  | TypeError
  | LibraryError
  | OutsideModel

definition andThen :: "error + 'a \<Rightarrow> ('a \<Rightarrow> error + 'b) \<Rightarrow> error + 'b" where
  "andThen m f = (case m of Inl e \<Rightarrow> Inl e | Inr x \<Rightarrow> f x)"

definition lib :: "'a option \<Rightarrow> error + 'a" where
  "lib r = (case r of None \<Rightarrow> Inl LibraryError | Some x \<Rightarrow> Inr x)"

text \<open>\<^verbatim>\<open>!!v\<close>: the falsy values are \<^verbatim>\<open>undefined\<close>, \<^verbatim>\<open>null\<close>, \<^verbatim>\<open>false\<close>, \<^verbatim>\<open>0\<close> and \<^verbatim>\<open>""\<close>.\<close>

fun truthy :: "jsval \<Rightarrow> bool" where
  "truthy JUndefined = False"
| "truthy JNull = False"
| "truthy (JBool b) = b"
| "truthy (JNum n) = (n \<noteq> 0)"
| "truthy (JStr s) = (s \<noteq> [])"
| "truthy (JBuf b) = True"
| "truthy (JArr xs) = True"
| "truthy (JObj kvs) = True"
| "truthy (JBuiltin n) = True"

fun typeof :: "jsval \<Rightarrow> string" where
  "typeof JUndefined = ''undefined''"
| "typeof JNull = ''object''"
| "typeof (JBool b) = ''boolean''"
| "typeof (JNum n) = ''number''"
| "typeof (JStr s) = ''string''"
| "typeof (JBuf b) = ''object''"
| "typeof (JArr xs) = ''object''"
| "typeof (JObj kvs) = ''object''"
| "typeof (JBuiltin n) = (if n = ''__proto__'' then ''object'' else ''function'')"

text \<open>
  The names every plain object inherits: the property names of \<^verbatim>\<open>Object.prototype\<close>.
\<close>

definition Object_prototype :: "string list" where
  "Object_prototype =
     [''constructor'', ''__defineGetter__'', ''__defineSetter__'', ''hasOwnProperty'',
      ''__lookupGetter__'', ''__lookupSetter__'', ''isPrototypeOf'', ''propertyIsEnumerable'',
      ''toString'', ''valueOf'', ''__proto__'', ''toLocaleString'']"

text \<open>
  \<^verbatim>\<open>o[k]\<close> on a plain object given by its own properties: the own property, else the
  inherited one, else \<^verbatim>\<open>undefined\<close>.
\<close>

definition propOf :: "(string \<times> jsval) list \<Rightarrow> string \<Rightarrow> jsval" where
  "propOf kvs k =
     (case map_of kvs k of
        Some v \<Rightarrow> v
      | None \<Rightarrow> if k \<in> set Object_prototype then JBuiltin k else JUndefined)"

text \<open>
  The property names the helpers read by a literal key. None of them is a property of a
  string, a number, a boolean, an array, a buffer or a function.
\<close>

definition literal_keys :: "string list" where
  "literal_keys = [''types'', ''primaryType'', ''domain'', ''message'', ''data'']"

text \<open>
  \<^verbatim>\<open>o[k]\<close> on any value: a \<open>TypeError\<close> on \<^verbatim>\<open>undefined\<close> and \<^verbatim>\<open>null\<close>. On a value
  that is no plain object the names above read \<^verbatim>\<open>undefined\<close>; its other properties (the
  characters and the \<^verbatim>\<open>length\<close> of a string, the elements of an array, the methods of
  a prototype) are not modelled.
\<close>

fun getProp :: "jsval \<Rightarrow> string \<Rightarrow> error + jsval" where
  "getProp JUndefined k = Inl TypeError"
| "getProp JNull k = Inl TypeError"
| "getProp (JObj kvs) k = Inr (propOf kvs k)"
| "getProp v k = (if k \<in> set literal_keys then Inr JUndefined else Inl OutsideModel)"

text \<open>\<^verbatim>\<open>o[k] = v\<close> on an object: an existing key keeps its place, a new one goes last.\<close>

fun setProp :: "(string \<times> jsval) list \<Rightarrow> string \<Rightarrow> jsval \<Rightarrow> (string \<times> jsval) list" where
  "setProp [] k v = [(k, v)]"
| "setProp ((k', v') # kvs) k v = (if k' = k then (k, v) # kvs else (k', v') # setProp kvs k v)"

section \<open>TypeGraph: schemas and type dependencies\<close>

text \<open>
  A schema (\<^verbatim>\<open>types\<close>) has the shape \<^verbatim>\<open>TYPED_MESSAGE_SCHEMA\<close> declares: an object whose
  values are arrays of \<^verbatim>\<open>{name, type}\<close> string pairs. A type name is a string, or
  \<^verbatim>\<open>undefined\<close> when \<^verbatim>\<open>sign\<close> passes on a \<^verbatim>\<open>primaryType\<close> that \<^verbatim>\<open>sanitizeData\<close>
  dropped; as a property key and inside a template string \<^verbatim>\<open>undefined\<close> reads
  \<^verbatim>\<open>"undefined"\<close>.
\<close>

record field =
  name :: string
  type :: string

type_synonym schema = "(string \<times> field list) list"

datatype tname = TUndef | TStr string

fun key_of :: "tname \<Rightarrow> string" where
  "key_of TUndef = ''undefined''"
| "key_of (TStr s) = s"

text \<open>
  \<^verbatim>\<open>types[k]\<close>: the array of fields when the schema has the key; a value that is not
  \<^verbatim>\<open>undefined\<close>, not an array and not iterable when the schema only inherits the
  name; \<^verbatim>\<open>undefined\<close> otherwise.
\<close>

datatype 'a entry = Absent | Inherited | Own 'a

definition typeEntry :: "schema \<Rightarrow> string \<Rightarrow> field list entry" where
  "typeEntry types k =
     (case map_of types k of
        Some children \<Rightarrow> Own children
      | None \<Rightarrow> if k \<in> set Object_prototype then Inherited else Absent)"

text \<open>
  The inner loop of \<^verbatim>\<open>findTypeDependencies\<close>,
  \<^verbatim>\<open>for (const dep of this.findTypeDependencies(field.type, types, results))
      !results.includes(dep) && results.push(dep);\<close>
  The recursive call returns the array \<^verbatim>\<open>results\<close> itself, so the loop walks the array
  it pushes to: index \<open>i\<close> runs while it is below the current length.
\<close>

function merge_deps :: "nat \<Rightarrow> tname list \<Rightarrow> tname list" where
  "merge_deps i results =
     (if i < length results
      then merge_deps (Suc i)
             (if results ! i \<in> set results then results else results @ [results ! i])
      else results)"
  by pat_completeness auto
termination
  by (relation "measure (\<lambda>(i, results). length results - i)") auto

declare merge_deps.simps [simp del]

text \<open>
  \<^verbatim>\<open>findTypeDependencies(primaryType, types, results = [])\<close>; the second function is its
  loop over the fields of \<^verbatim>\<open>types[primaryType]\<close>. The array \<^verbatim>\<open>results\<close> is passed on and
  returned. For a name the schema only inherits the guard lets the call through, the name
  is pushed, and \<^verbatim>\<open>for (const field of types[primaryType])\<close> raises a \<open>TypeError\<close>.
\<close>

function findTypeDependencies :: "tname \<Rightarrow> schema \<Rightarrow> tname list \<Rightarrow> error + tname list"
  and findTypeDependencies_fields :: "field list \<Rightarrow> schema \<Rightarrow> tname list \<Rightarrow> error + tname list"
where
  "findTypeDependencies primaryType types results =
     (if primaryType \<in> set results then Inr results
      else case typeEntry types (key_of primaryType) of
        Absent \<Rightarrow> Inr results
      | Inherited \<Rightarrow> Inl TypeError
      | Own children \<Rightarrow> findTypeDependencies_fields children types (results @ [primaryType]))"
| "findTypeDependencies_fields [] types results = Inr results"
| "findTypeDependencies_fields (field # rest) types results =
     (case findTypeDependencies (TStr (type field)) types results of
        Inl e \<Rightarrow> Inl e
      | Inr deps \<Rightarrow> findTypeDependencies_fields rest types (merge_deps 0 deps))"
  by pat_completeness auto

lemma merge_deps_id: "merge_deps i results = results"
proof (induction i results rule: merge_deps.induct)
  case (1 i results)
  show ?case
  proof (cases "i < length results")
    case True
    then have "results ! i \<in> set results" by simp
    with True 1 show ?thesis by (subst merge_deps.simps) simp
  next
    case False
    then show ?thesis by (subst merge_deps.simps) simp
  qed
qed

definition candidates :: "schema \<Rightarrow> tname set" where
  "candidates types = insert TUndef (TStr ` fst ` set types)"

definition remaining :: "schema \<Rightarrow> tname list \<Rightarrow> nat" where
  "remaining types results = card (candidates types - set results)"

lemma finite_candidates: "finite (candidates types)"
  by (simp add: candidates_def)

lemma typeEntry_Own: "typeEntry types k = Own fs \<longleftrightarrow> map_of types k = Some fs"
  by (simp add: typeEntry_def split: option.splits)

lemma key_candidate: "typeEntry types (key_of t) = Own fs \<Longrightarrow> t \<in> candidates types"
proof (cases t)
  case TUndef
  then show ?thesis by (simp add: candidates_def)
next
  case (TStr s)
  assume "typeEntry types (key_of t) = Own fs"
  with TStr have "(s, fs) \<in> set types" by (simp add: typeEntry_Own map_of_SomeD)
  then have "s \<in> fst ` set types" by force
  with TStr show ?thesis by (simp add: candidates_def)
qed

lemma remaining_mono: "set r \<subseteq> set r' \<Longrightarrow> remaining S r' \<le> remaining S r"
  unfolding remaining_def by (intro card_mono) (auto simp: finite_candidates)

lemma remaining_push:
  "t \<in> candidates S \<Longrightarrow> t \<notin> set r \<Longrightarrow> remaining S (r @ [t]) < remaining S r"
  unfolding remaining_def
  by (intro psubset_card_mono) (auto simp: finite_candidates)

lemma findTypeDependencies_grows_dom:
  "findTypeDependencies_findTypeDependencies_fields_dom (Inl (p, S, r)) \<Longrightarrow>
     findTypeDependencies p S r = Inr out \<Longrightarrow> set r \<subseteq> set out"
  "findTypeDependencies_findTypeDependencies_fields_dom (Inr (fs, S, r)) \<Longrightarrow>
     findTypeDependencies_fields fs S r = Inr out \<Longrightarrow> set r \<subseteq> set out"
proof (induction p S r and fs S r arbitrary: out and out
         rule: findTypeDependencies_findTypeDependencies_fields.pinduct)
  case (1 primaryType types results)
  show ?case
  proof (cases "primaryType \<in> set results")
    case True
    with 1(1,3) show ?thesis by (simp add: findTypeDependencies.psimps)
  next
    case False
    show ?thesis
    proof (cases "typeEntry types (key_of primaryType)")
      case Absent
      with False 1(1,3) show ?thesis by (simp add: findTypeDependencies.psimps)
    next
      case Inherited
      with False 1(1,3) show ?thesis by (simp add: findTypeDependencies.psimps)
    next
      case (Own children)
      with False 1(1,3)
      have "findTypeDependencies_fields children types (results @ [primaryType]) = Inr out"
        by (simp add: findTypeDependencies.psimps)
      from 1(2)[OF False Own this] show ?thesis by simp
    qed
  qed
next
  case (2 types results)
  then show ?case by (simp add: findTypeDependencies_fields.psimps)
next
  case (3 field rest types results)
  from 3(1,4) obtain deps where
    deps: "findTypeDependencies (TStr (type field)) types results = Inr deps"
    and rest: "findTypeDependencies_fields rest types (merge_deps 0 deps) = Inr out"
    by (auto simp: findTypeDependencies_fields.psimps split: sum.splits)
  from 3(2)[OF deps] have "set results \<subseteq> set deps" .
  moreover from 3(3)[OF deps rest] have "set deps \<subseteq> set out" by (simp add: merge_deps_id)
  ultimately show ?case by simp
qed

termination findTypeDependencies
proof (relation "(\<lambda>x. case x of Inl (p, S, r) \<Rightarrow> remaining S r | Inr (fs, S, r) \<Rightarrow> remaining S r)
                 <*mlex*> measure (\<lambda>x. case x of Inl _ \<Rightarrow> 0 | Inr (fs, S, r) \<Rightarrow> Suc (length fs))",
       goal_cases)
  case 1
  then show ?case by (simp add: wf_mlex)
next
  case (2 primaryType types results children)
  then have "remaining types (results @ [primaryType]) < remaining types results"
    by (intro remaining_push key_candidate) auto
  then show ?case by (intro mlex_less) simp
next
  case (3 field rest types results)
  show ?case by (rule mlex_leq) simp_all
next
  case (4 field rest types results deps)
  from findTypeDependencies_grows_dom(1)[OF 4(2) 4(1)]
  have "remaining types (merge_deps 0 deps) \<le> remaining types results"
    by (simp add: merge_deps_id remaining_mono)
  then show ?case by (intro mlex_leq) simp_all
qed

declare findTypeDependencies.simps [simp del]

text \<open>\<^verbatim>\<open>Array.prototype.join\<close> on strings.\<close>

fun join :: "string \<Rightarrow> string list \<Rightarrow> string" where
  "join sep [] = []"
| "join sep [x] = x"
| "join sep (x # y # ys) = x @ sep @ join sep (y # ys)"

text \<open>
  \<^verbatim>\<open>Array.prototype.sort()\<close> with no comparator: \<^verbatim>\<open>undefined\<close> entries go last, the
  others are ordered as strings, code unit by code unit.
\<close>

definition sort_js :: "tname list \<Rightarrow> tname list" where
  "sort_js xs =
     map TStr (sort (concat (map (\<lambda>t. case t of TUndef \<Rightarrow> [] | TStr s \<Rightarrow> [s]) xs)))
     @ filter (\<lambda>t. t = TUndef) xs"

text \<open>
  The loop of \<^verbatim>\<open>encodeType\<close> over \<^verbatim>\<open>deps\<close>, with the string built so far:
  \<^verbatim>\<open>if (!children) throw\<close>, then \<^verbatim>\<open>types[type].map(...)\<close>.
\<close>

fun encodeType_loop :: "schema \<Rightarrow> tname list \<Rightarrow> string \<Rightarrow> error + string" where
  "encodeType_loop types [] result = Inr result"
| "encodeType_loop types (t # deps) result =
     (case typeEntry types (key_of t) of
        Absent \<Rightarrow> Inl (UnknownType (key_of t))
      | Inherited \<Rightarrow> Inl TypeError
      | Own children \<Rightarrow>
          encodeType_loop types deps
            (result @ key_of t @ ''('' @
               join '','' (map (\<lambda>f. type f @ '' '' @ name f) children) @ '')''))"

text \<open>
  \<^verbatim>\<open>encodeType(primaryType, types)\<close>. An exception of \<^verbatim>\<open>findTypeDependencies\<close> is passed
  on; in the loop an inherited name is truthy and has no \<^verbatim>\<open>map\<close> to call.
\<close>

definition encodeType :: "tname \<Rightarrow> schema \<Rightarrow> error + string" where
  "encodeType primaryType types =
     andThen (findTypeDependencies primaryType types []) (\<lambda>found.
       let deps = filter (\<lambda>dep. dep \<noteq> primaryType) found;
           deps = primaryType # sort_js deps
       in encodeType_loop types deps [])"

section \<open>External primitives\<close>

text \<open>
  The cryptographic and ABI primitives of ethereumjs-util and ethereumjs-abi are not part
  of the repository. They are parameters of the model; \<open>None\<close> stands for an exception
  raised inside the primitive.
\<close>

record signature =
  sig_v :: nat
  sig_r :: bytes
  sig_s :: bytes

record prims =
  sha3 :: "jsval \<Rightarrow> bytes option"
  rawEncode :: "string list \<Rightarrow> jsval list \<Rightarrow> bytes option"
  soliditySHA3 :: "string list \<Rightarrow> jsval list \<Rightarrow> bytes option"
  toBuffer :: "jsval \<Rightarrow> bytes option"
  hashPersonalMessage :: "bytes \<Rightarrow> bytes option"
  ecsign :: "bytes \<Rightarrow> jsval \<Rightarrow> signature option"

section \<open>StructEncoder\<close>

definition hashType :: "prims \<Rightarrow> tname \<Rightarrow> schema \<Rightarrow> error + bytes" where
  "hashType E primaryType types =
     andThen (encodeType primaryType types) (\<lambda>s. lib (sha3 E (JStr s)))"

text \<open>\<^verbatim>\<open>String.prototype.lastIndexOf\<close> for a single character: \<open>-1\<close> when it is absent.\<close>

fun lastIndexOf :: "string \<Rightarrow> char \<Rightarrow> int" where
  "lastIndexOf [] c = -1"
| "lastIndexOf (x # xs) c =
     (let i = lastIndexOf xs c in if i \<noteq> -1 then i + 1 else if x = c then 0 else -1)"

lemma size_getProp:
  "getProp d k = Inr v \<Longrightarrow> v \<noteq> JUndefined \<Longrightarrow> size v < size d"
proof (cases d)
  case (JObj kvs)
  assume g: "getProp d k = Inr v" and v: "v \<noteq> JUndefined"
  show ?thesis
  proof (cases "map_of kvs k")
    case None
    with g v JObj have "v = JBuiltin k" by (simp add: propOf_def split: if_splits)
    with JObj show ?thesis by simp
  next
    case (Some w)
    with g JObj have "map_of kvs k = Some v" by (simp add: propOf_def)
    then have "(k, v) \<in> set kvs" by (rule map_of_SomeD)
    then have "size v < Suc (size_list (size_prod (\<lambda>x. 0) size) kvs)"
      by (induction kvs) auto
    with JObj show ?thesis by simp
  qed
qed (auto split: if_splits)

text \<open>
  \<^verbatim>\<open>encodeData(primaryType, data, types)\<close>; the second function is its loop over the
  fields of \<^verbatim>\<open>types[primaryType]\<close>, carrying the arrays \<^verbatim>\<open>encodedTypes\<close> and
  \<^verbatim>\<open>encodedValues\<close>. The loop needs an array to iterate; the test
  \<^verbatim>\<open>types[field.type] !== undefined\<close> holds for an inherited name too.
\<close>

function encodeData :: "prims \<Rightarrow> tname \<Rightarrow> jsval \<Rightarrow> schema \<Rightarrow> error + bytes"
  and encodeData_fields ::
    "prims \<Rightarrow> field list \<Rightarrow> jsval \<Rightarrow> schema \<Rightarrow> string list \<times> jsval list
       \<Rightarrow> error + string list \<times> jsval list"
where
  "encodeData E primaryType data types =
     (case hashType E primaryType types of
        Inl e \<Rightarrow> Inl e
      | Inr h \<Rightarrow>
          (case typeEntry types (key_of primaryType) of
             Own children \<Rightarrow>
               (case encodeData_fields E children data types ([''bytes32''], [JBuf h]) of
                  Inl e \<Rightarrow> Inl e
                | Inr (encodedTypes, encodedValues) \<Rightarrow>
                    lib (rawEncode E encodedTypes encodedValues))
           | _ \<Rightarrow> Inl TypeError))"
| "encodeData_fields E [] data types acc = Inr acc"
| "encodeData_fields E (field # rest) data types (encodedTypes, encodedValues) =
     (case getProp data (name field) of
        Inl e \<Rightarrow> Inl e
      | Inr val \<Rightarrow>
          if val \<noteq> JUndefined then
            if type field = ''string'' \<or> type field = ''bytes'' then
              (case lib (sha3 E val) of
                 Inl e \<Rightarrow> Inl e
               | Inr hv \<Rightarrow>
                   encodeData_fields E rest data types
                     (encodedTypes @ [''bytes32''], encodedValues @ [JBuf hv]))
            else if typeEntry types (type field) \<noteq> Absent then
              (case encodeData E (TStr (type field)) val types of
                 Inl e \<Rightarrow> Inl e
               | Inr enc \<Rightarrow>
                   (case lib (sha3 E (JBuf enc)) of
                      Inl e \<Rightarrow> Inl e
                    | Inr hv \<Rightarrow>
                        encodeData_fields E rest data types
                          (encodedTypes @ [''bytes32''], encodedValues @ [JBuf hv])))
            else if lastIndexOf (type field) CHR '']'' = int (length (type field)) - 1 then
              Inl ArraysUnimplemented
            else
              encodeData_fields E rest data types
                (encodedTypes @ [type field], encodedValues @ [val])
          else encodeData_fields E rest data types (encodedTypes, encodedValues))"
  by pat_completeness auto
termination
proof (relation "(\<lambda>x. case x of Inl (E, p, d, S) \<Rightarrow> size d | Inr (E, fs, d, S, a) \<Rightarrow> size d)
                 <*mlex*> (\<lambda>x. case x of Inl _ \<Rightarrow> Suc 0 | Inr _ \<Rightarrow> 0)
                 <*mlex*> measure (\<lambda>x. case x of Inl _ \<Rightarrow> 0 | Inr (E, fs, d, S, a) \<Rightarrow> length fs)",
       goal_cases)
  case 1
  show ?case by (simp add: wf_mlex)
next
  case (4 E field rest data types encodedTypes encodedValues val)
  then have "size val < size data" by (intro size_getProp) simp_all
  then show ?case by (simp add: mlex_iff)
qed (simp_all add: mlex_iff)

declare encodeData.simps [simp del]

definition hashStruct :: "prims \<Rightarrow> tname \<Rightarrow> jsval \<Rightarrow> schema \<Rightarrow> error + bytes" where
  "hashStruct E primaryType data types =
     andThen (encodeData E primaryType data types) (\<lambda>enc. lib (sha3 E (JBuf enc)))"

section \<open>Eip712Signer\<close>

text \<open>The keys of \<^verbatim>\<open>TYPED_MESSAGE_SCHEMA.properties\<close>, in declaration order.\<close>

definition TYPED_MESSAGE_SCHEMA_properties :: "string list" where
  "TYPED_MESSAGE_SCHEMA_properties = [''types'', ''primaryType'', ''domain'', ''message'']"

text \<open>
  \<^verbatim>\<open>sanitizeData\<close>: for each key of the schema,
  \<^verbatim>\<open>data[key] && (sanitizedData[key] = data[key])\<close>.
\<close>

fun sanitizeData_loop ::
  "jsval \<Rightarrow> string list \<Rightarrow> (string \<times> jsval) list \<Rightarrow> error + (string \<times> jsval) list" where
  "sanitizeData_loop data [] sanitizedData = Inr sanitizedData"
| "sanitizeData_loop data (key # keys) sanitizedData =
     (case getProp data key of
        Inl e \<Rightarrow> Inl e
      | Inr v \<Rightarrow>
          sanitizeData_loop data keys
            (if truthy v then setProp sanitizedData key v else sanitizedData))"

definition sanitizeData :: "jsval \<Rightarrow> error + (string \<times> jsval) list" where
  "sanitizeData data = sanitizeData_loop data TYPED_MESSAGE_SCHEMA_properties []"

text \<open>
  The typed view of the values \<^verbatim>\<open>sign\<close> hands to \<^verbatim>\<open>hashStruct\<close>: a \<^verbatim>\<open>types\<close> object of
  the shape \<^verbatim>\<open>TYPED_MESSAGE_SCHEMA\<close> declares, and a \<^verbatim>\<open>primaryType\<close> that is a string or
  \<^verbatim>\<open>undefined\<close>.
\<close>

fun as_field :: "jsval \<Rightarrow> field option" where
  "as_field (JObj kvs) =
     (case (map_of kvs ''name'', map_of kvs ''type'') of
        (Some (JStr n), Some (JStr t)) \<Rightarrow> Some \<lparr>name = n, type = t\<rparr>
      | _ \<Rightarrow> None)"
| "as_field v = None"

fun as_schema :: "jsval \<Rightarrow> schema option" where
  "as_schema (JObj kvs) =
     those (map (\<lambda>(k, v). case v of
                    JArr fs \<Rightarrow> map_option (Pair k) (those (map as_field fs))
                  | _ \<Rightarrow> None) kvs)"
| "as_schema v = None"

fun as_tname :: "jsval \<Rightarrow> tname option" where
  "as_tname JUndefined = Some TUndef"
| "as_tname (JStr s) = Some (TStr s)"
| "as_tname v = None"

text \<open>
  \<^verbatim>\<open>hashStruct\<close> as \<^verbatim>\<open>sign\<close> calls it, on untyped values. With \<^verbatim>\<open>types\<close> undefined the
  first property read \<^verbatim>\<open>types[primaryType]\<close> (in \<^verbatim>\<open>findTypeDependencies\<close>) raises.
\<close>

definition hashStruct_js :: "prims \<Rightarrow> jsval \<Rightarrow> jsval \<Rightarrow> jsval \<Rightarrow> error + bytes" where
  "hashStruct_js E primaryType data types =
     (if types = JUndefined \<or> types = JNull then Inl TypeError
      else case (as_tname primaryType, as_schema types) of
        (Some p, Some S) \<Rightarrow> hashStruct E p data S
      | _ \<Rightarrow> Inl OutsideModel)"

definition sign :: "prims \<Rightarrow> jsval \<Rightarrow> error + bytes" where
  "sign E typedData =
     andThen (sanitizeData typedData) (\<lambda>sanitizedData.
     andThen (hashStruct_js E (JStr ''EIP712Domain'')
                (propOf sanitizedData ''domain'') (propOf sanitizedData ''types'')) (\<lambda>h1.
     andThen (hashStruct_js E (propOf sanitizedData ''primaryType'')
                (propOf sanitizedData ''message'') (propOf sanitizedData ''types'')) (\<lambda>h2.
     lib (sha3 E (JBuf (concat [[0x19, 0x01], h1, h2]))))))"

subsection \<open>The legacy path\<close>

text \<open>
  An entry of the legacy list, \<^verbatim>\<open>{type, name, value}\<close>. The name is \<open>None\<close> when the
  entry has none (or a falsy one that is not a string).
\<close>

record typed_entry =
  ename :: "string option"
  etype :: string
  evalue :: jsval

text \<open>\<^verbatim>\<open>Array.prototype.map\<close> with a callback that may throw: the first throw ends it.\<close>

fun mapM_e :: "('a \<Rightarrow> error + 'b) \<Rightarrow> 'a list \<Rightarrow> error + 'b list" where
  "mapM_e f [] = Inr []"
| "mapM_e f (x # xs) =
     (case f x of
        Inl e \<Rightarrow> Inl e
      | Inr y \<Rightarrow> (case mapM_e f xs of Inl e \<Rightarrow> Inl e | Inr ys \<Rightarrow> Inr (y # ys)))"

definition typedSignatureHashBuffer :: "prims \<Rightarrow> typed_entry list \<Rightarrow> error + bytes" where
  "typedSignatureHashBuffer E typedData =
     (if typedData = [] then Inl InvalidInput
      else
        andThen (mapM_e (\<lambda>e. if etype e = ''bytes''
                              then andThen (lib (toBuffer E (evalue e))) (\<lambda>b. Inr (JBuf b))
                              else Inr (evalue e)) typedData) (\<lambda>data.
        let types = map etype typedData in
        andThen (mapM_e (\<lambda>e. case ename e of
                                None \<Rightarrow> Inl InvalidInput
                              | Some n \<Rightarrow> if n = [] then Inl InvalidInput
                                          else Inr (JStr (etype e @ '' '' @ n))) typedData) (\<lambda>schema.
        andThen (lib (soliditySHA3 E (replicate (length typedData) ''string'') schema)) (\<lambda>h1.
        andThen (lib (soliditySHA3 E types data)) (\<lambda>h2.
        lib (soliditySHA3 E [''bytes32'', ''bytes32''] [JBuf h1, JBuf h2]))))))"

fun as_entry :: "jsval \<Rightarrow> typed_entry option" where
  "as_entry (JObj kvs) =
     (case propOf kvs ''type'' of
        JStr t \<Rightarrow>
          (case propOf kvs ''name'' of
             JStr n \<Rightarrow> Some \<lparr>ename = Some n, etype = t, evalue = propOf kvs ''value''\<rparr>
           | v \<Rightarrow> if truthy v then None
                  else Some \<lparr>ename = None, etype = t, evalue = propOf kvs ''value''\<rparr>)
      | _ \<Rightarrow> None)"
| "as_entry v = None"

text \<open>
  \<^verbatim>\<open>typedSignatureHashBuffer\<close> on an untyped argument: the guard
  \<^verbatim>\<open>typeof typedData !== "object" || !typedData.length\<close>, then the typed function.
  Reading \<^verbatim>\<open>null.length\<close> raises, and so does calling \<^verbatim>\<open>map\<close> on an object that is
  not an array, unless its \<^verbatim>\<open>map\<close> is a built-in function.
\<close>

definition typedSignatureHashBuffer_js :: "prims \<Rightarrow> jsval \<Rightarrow> error + bytes" where
  "typedSignatureHashBuffer_js E typedData =
     (if typeof typedData \<noteq> ''object'' then Inl InvalidInput
      else case typedData of
        JNull \<Rightarrow> Inl TypeError
      | JArr es \<Rightarrow>
          (if es = [] then Inl InvalidInput
           else case those (map as_entry es) of
             None \<Rightarrow> Inl OutsideModel
           | Some entries \<Rightarrow> typedSignatureHashBuffer E entries)
      | JObj kvs \<Rightarrow>
          if \<not> truthy (propOf kvs ''length'') then Inl InvalidInput
          else if typeof (propOf kvs ''map'') = ''function'' then Inl OutsideModel
          else Inl TypeError
      | JBuf b \<Rightarrow> if b = [] then Inl InvalidInput else Inl OutsideModel
      | _ \<Rightarrow> Inl InvalidInput)"

section \<open>ByteCodec\<close>

text \<open>
  Modelled from the spec: the hex and byte-buffer conversions of ethereumjs-util and of
  \<^verbatim>\<open>Buffer\<close> (``hex/byte buffer conversions, zero-padding, sign-prefix stripping''), which
  are not among the source files. Hex text is lower-case, two digits a byte.
\<close>

definition hexdigit :: "nat \<Rightarrow> char" where
  "hexdigit n = ''0123456789abcdef'' ! n"

definition hex_of_byte :: "8 word \<Rightarrow> string" where
  "hex_of_byte b = [hexdigit (unat b div 16), hexdigit (unat b mod 16)]"

text \<open>Modelled from the spec: \<^verbatim>\<open>buffer.toString("hex")\<close>.\<close>

definition toString_hex :: "bytes \<Rightarrow> string" where
  "toString_hex bs = concat (map hex_of_byte bs)"

definition hex_val :: "char \<Rightarrow> nat option" where
  "hex_val c =
     (let n = (of_char c :: nat) in
      if 48 \<le> n \<and> n \<le> 57 then Some (n - 48)
      else if 97 \<le> n \<and> n \<le> 102 then Some (n - 87)
      else if 65 \<le> n \<and> n \<le> 70 then Some (n - 55)
      else None)"

text \<open>Modelled from the spec: \<^verbatim>\<open>Buffer.from(s, "hex")\<close>; \<open>None\<close> on unparseable hex.\<close>

fun from_hex :: "string \<Rightarrow> bytes option" where
  "from_hex [] = Some []"
| "from_hex [c] = None"
| "from_hex (a # b # cs) =
     (case (hex_val a, hex_val b, from_hex cs) of
        (Some x, Some y, Some bs) \<Rightarrow> Some (of_nat (16 * x + y) # bs)
      | _ \<Rightarrow> None)"

text \<open>Modelled from the spec: \<^verbatim>\<open>ethUtil.stripHexPrefix\<close>, \<^verbatim>\<open>ethUtil.addHexPrefix\<close>
  (``prefixed once'') and \<^verbatim>\<open>padToEven\<close>.\<close>

definition stripHexPrefix :: "string \<Rightarrow> string" where
  "stripHexPrefix str = (if take 2 str = ''0x'' then drop 2 str else str)"

definition addHexPrefix :: "string \<Rightarrow> string" where
  "addHexPrefix str = (if take 2 str = ''0x'' then str else ''0x'' @ str)"

definition padToEven :: "string \<Rightarrow> string" where
  "padToEven str = (if odd (length str) then ''0'' @ str else str)"

text \<open>Modelled from the spec: \<^verbatim>\<open>ethUtil.bufferToHex\<close> on a buffer.\<close>

definition bufferToHex :: "bytes \<Rightarrow> string" where
  "bufferToHex buf = ''0x'' @ toString_hex buf"

text \<open>Modelled from the spec: the value of a big-endian byte sequence, and the shortest
  big-endian byte sequence of a number (one zero byte for zero).\<close>

fun be_to_nat :: "bytes \<Rightarrow> nat" where
  "be_to_nat bs = foldl (\<lambda>acc b. 256 * acc + unat b) 0 bs"

fun nat_to_be :: "nat \<Rightarrow> bytes" where
  "nat_to_be n = (if n < 256 then [of_nat n] else nat_to_be (n div 256) @ [of_nat (n mod 256)])"

declare nat_to_be.simps [simp del]

text \<open>Modelled from the spec: \<^verbatim>\<open>number.toString(16)\<close>, the shortest hex text of a
  number.\<close>

fun hex_of_nat :: "nat \<Rightarrow> string" where
  "hex_of_nat n = (if n < 16 then [hexdigit n] else hex_of_nat (n div 16) @ [hexdigit (n mod 16)])"

declare hex_of_nat.simps [simp del]



section \<open>SignatureCodec\<close>

text \<open>Modelled from the spec: \<^verbatim>\<open>ethUtil.fromSigned\<close>, the 256-bit two's-complement
  signed value of a buffer, and \<^verbatim>\<open>ethUtil.toUnsigned\<close>, the shortest big-endian bytes
  of a signed value reduced to its unsigned 256-bit form.\<close>

definition fromSigned :: "bytes \<Rightarrow> int" where
  "fromSigned num =
     (let n = int (be_to_nat num) in if n \<ge> 2 ^ 255 then n - 2 ^ 256 else n)"

definition toUnsigned :: "int \<Rightarrow> bytes" where
  "toUnsigned num = nat_to_be (nat (num mod 2 ^ 256))"

text \<open>Modelled from the spec: \<^verbatim>\<open>ethUtil.bufferToInt\<close> of a number (the number read back
  from its bytes) and \<^verbatim>\<open>ethUtil.intToHex\<close>.\<close>

definition bufferToInt :: "nat \<Rightarrow> nat" where
  "bufferToInt n = be_to_nat (nat_to_be n)"

definition intToHex :: "nat \<Rightarrow> string" where
  "intToHex i = ''0x'' @ hex_of_nat i"

text \<open>\<^verbatim>\<open>padWithZeroes(number, length)\<close>: the \<^verbatim>\<open>while\<close> loop that prepends \<^verbatim>\<open>"0"\<close>.\<close>

function padWithZeroes :: "string \<Rightarrow> nat \<Rightarrow> string" where
  "padWithZeroes myString len =
     (if length myString < len then padWithZeroes (''0'' @ myString) len else myString)"
  by pat_completeness auto
termination
  by (relation "measure (\<lambda>(myString, len). len - length myString)") auto

declare padWithZeroes.simps [simp del]

text \<open>\<^verbatim>\<open>concatSig(v, r, s)\<close>; \<^verbatim>\<open>v\<close> is a number, \<^verbatim>\<open>r\<close> and \<^verbatim>\<open>s\<close> are buffers. The final
  \<^verbatim>\<open>.toString("hex")\<close> is applied to a string and returns it.\<close>

definition concatSig :: "nat \<Rightarrow> bytes \<Rightarrow> bytes \<Rightarrow> string" where
  "concatSig v r s =
     (let rSig = fromSigned r;
          sSig = fromSigned s;
          vSig = bufferToInt v;
          rStr = padWithZeroes (toString_hex (toUnsigned rSig)) 64;
          sStr = padWithZeroes (toString_hex (toUnsigned sSig)) 64;
          vStr = stripHexPrefix (intToHex vSig)
      in addHexPrefix (rStr @ sStr @ vStr))"

text \<open>Modelled from the spec: \<^verbatim>\<open>ethUtil.toBuffer\<close> of a hex string, and
  \<^verbatim>\<open>ethUtil.fromRpcSig\<close>: ``splits a 65-byte signature into r (bytes 0-31), s (bytes
  32-63), v (byte 64, normalized to 27/28). Fails with MalformedSignature if input is not
  exactly 65 bytes once hex-decoded.''\<close>

definition toBuffer_hex :: "string \<Rightarrow> error + bytes" where
  "toBuffer_hex sig =
     (case from_hex (padToEven (stripHexPrefix sig)) of
        None \<Rightarrow> Inl MalformedSignature
      | Some b \<Rightarrow> Inr b)"

definition ethUtil_fromRpcSig :: "bytes \<Rightarrow> error + signature" where
  "ethUtil_fromRpcSig sig =
     (if length sig \<noteq> 65 then Inl MalformedSignature
      else let v = unat (sig ! 64);
               v = (if v < 27 then v + 27 else v)
           in Inr \<lparr>sig_v = v, sig_r = take 32 sig, sig_s = take 32 (drop 32 sig)\<rparr>)"

text \<open>\<^verbatim>\<open>fromRpcSig(sig)\<close>, \<^verbatim>\<open>sig\<close> a string.\<close>

definition fromRpcSig :: "string \<Rightarrow> error + signature" where
  "fromRpcSig sig =
     andThen (toBuffer_hex sig) (\<lambda>signature.
     andThen (ethUtil_fromRpcSig signature) (\<lambda>sigParams. Inr sigParams))"

section \<open>normalize and the signing entry points\<close>




text \<open>
  \<^verbatim>\<open>personalSign\<close>, \<^verbatim>\<open>signTypedDataLegacy\<close> and \<^verbatim>\<open>signTypedData\<close> are arrow functions
  at the top level of an ES module: their \<^verbatim>\<open>this\<close> is the module's, which is
  \<^verbatim>\<open>undefined\<close>. A call of a value that is no function raises; what the built-in
  functions of \<^verbatim>\<open>Object.prototype\<close> return is not modelled.
\<close>

definition module_this :: jsval where
  "module_this = JUndefined"

definition call :: "jsval \<Rightarrow> jsval list \<Rightarrow> error + jsval" where
  "call f args = (if typeof f = ''function'' then Inl OutsideModel else Inl TypeError)"

definition finish_signature :: "prims \<Rightarrow> signature \<Rightarrow> error + string" where
  "finish_signature E sig =
     andThen (getProp module_this ''concatSig'') (\<lambda>f.
     andThen (call f [JNum (int (sig_v sig)), JBuf (sig_r sig), JBuf (sig_s sig)]) (\<lambda>c.
     andThen (lib (toBuffer E c)) (\<lambda>b. Inr (bufferToHex b))))"

definition personalSign :: "prims \<Rightarrow> jsval \<Rightarrow> jsval \<Rightarrow> error + string" where
  "personalSign E privateKey msgParams =
     andThen (getProp msgParams ''data'') (\<lambda>d.
     andThen (lib (toBuffer E d)) (\<lambda>message.
     andThen (lib (hashPersonalMessage E message)) (\<lambda>msgHash.
     andThen (lib (ecsign E msgHash privateKey)) (\<lambda>sig.
     andThen (finish_signature E sig) (\<lambda>serialized. Inr serialized)))))"

definition signTypedDataLegacy :: "prims \<Rightarrow> jsval \<Rightarrow> jsval \<Rightarrow> error + string" where
  "signTypedDataLegacy E privateKey msgParams =
     andThen (getProp msgParams ''data'') (\<lambda>d.
     andThen (typedSignatureHashBuffer_js E d) (\<lambda>msgHash.
     andThen (lib (ecsign E msgHash privateKey)) (\<lambda>sig.
     finish_signature E sig)))"

definition signTypedData :: "prims \<Rightarrow> jsval \<Rightarrow> jsval \<Rightarrow> error + string" where
  "signTypedData E privateKey msgParams =
     andThen (getProp msgParams ''data'') (\<lambda>d.
     andThen (sign E d) (\<lambda>message.
     andThen (lib (ecsign E message privateKey)) (\<lambda>sig.
     finish_signature E sig)))"

section \<open>Notions used to state the properties\<close>










text \<open>
  The words of the signing rule: the value \<^verbatim>\<open>sign\<close> works with for a top-level key is
  the supplied one when it is truthy and \<^verbatim>\<open>undefined\<close> otherwise.
\<close>

definition kept :: "(string \<times> jsval) list \<Rightarrow> string \<Rightarrow> jsval" where
  "kept kvs k = (if truthy (propOf kvs k) then propOf kvs k else JUndefined)"

text \<open>
  The signing rule as the specification words it: the input restricted to the four
  recognized keys, whatever their values, then the hash over its \<^verbatim>\<open>domain\<close>,
  \<^verbatim>\<open>types\<close>, \<^verbatim>\<open>primaryType\<close> and \<^verbatim>\<open>message\<close>.
\<close>

definition restrict_keys :: "(string \<times> jsval) list \<Rightarrow> (string \<times> jsval) list" where
  "restrict_keys kvs =
     map (\<lambda>k. (k, propOf kvs k))
       (filter (\<lambda>k. k \<in> fst ` set kvs) TYPED_MESSAGE_SCHEMA_properties)"

definition sign_as_stated :: "prims \<Rightarrow> (string \<times> jsval) list \<Rightarrow> error + bytes" where
  "sign_as_stated E kvs =
     (let data = restrict_keys kvs in
      andThen (hashStruct_js E (JStr ''EIP712Domain'') (propOf data ''domain'') (propOf data ''types''))
        (\<lambda>h1.
      andThen (hashStruct_js E (propOf data ''primaryType'') (propOf data ''message'')
                 (propOf data ''types'')) (\<lambda>h2.
      lib (sha3 E (JBuf ([0x19, 0x01] @ h1 @ h2))))))"

text \<open>
  The words of the legacy rule: the value handed to the packer for an entry (a
  \<^verbatim>\<open>bytes\<close> value goes through \<^verbatim>\<open>ethUtil.toBuffer\<close>), an entry with a usable name, and
  its schema string \<^verbatim>\<open>"type name"\<close>.
\<close>

definition convert_value :: "prims \<Rightarrow> typed_entry \<Rightarrow> error + jsval" where
  "convert_value E e =
     (if etype e = ''bytes'' then andThen (lib (toBuffer E (evalue e))) (\<lambda>b. Inr (JBuf b))
      else Inr (evalue e))"

definition named :: "typed_entry \<Rightarrow> bool" where
  "named e = (case ename e of None \<Rightarrow> False | Some n \<Rightarrow> n \<noteq> [])"

definition schema_string :: "typed_entry \<Rightarrow> jsval" where
  "schema_string e = JStr (etype e @ '' '' @ the (ename e))"

text \<open>A byte sequence without its leading zero bytes (one zero byte when all are zero).\<close>

definition strip_zeros :: "bytes \<Rightarrow> bytes" where
  "strip_zeros bs = (case dropWhile (\<lambda>b. b = 0) bs of [] \<Rightarrow> [0] | t \<Rightarrow> t)"

section \<open>Example data\<close>




text \<open>
  A stand-in for the external primitives, for evaluating the model on concrete inputs.
  Its \<open>toBuffer\<close> follows \<^verbatim>\<open>ethUtil.toBuffer\<close> on the values used here: a buffer passes, a
  hex string is decoded, a non-negative number gives its bytes, \<^verbatim>\<open>null\<close> and
  \<^verbatim>\<open>undefined\<close> give the empty buffer, and a boolean or a plain object raises
  \<^verbatim>\<open>invalid type\<close> (the stand-in refuses arrays and functions as well). The hashes are
  constant bytes and \<open>rawEncode\<close> gives one byte for each value it is handed; handed a
  function, \<open>sha3\<close> and \<open>rawEncode\<close> raise, as \<^verbatim>\<open>ethUtil.sha3\<close> (\<^verbatim>\<open>invalid type\<close>) and
  \<^verbatim>\<open>ethAbi.rawEncode\<close> do.
\<close>

definition demo_prims :: prims where
  "demo_prims =
     \<lparr>sha3 = (\<lambda>v. if typeof v = ''function'' then None else Some [0x11]),
      rawEncode = (\<lambda>ts vs. if list_ex (\<lambda>v. typeof v = ''function'') vs then None
                            else Some (replicate (length vs) 0x22)),
      soliditySHA3 = (\<lambda>ts vs. Some [0x33]),
      toBuffer = (\<lambda>v. case v of
                    JBuf b \<Rightarrow> Some b
                  | JStr str \<Rightarrow> from_hex (padToEven (stripHexPrefix str))
                  | JNum n \<Rightarrow> if 0 \<le> n then Some (nat_to_be (nat n)) else None
                  | JNull \<Rightarrow> Some []
                  | JUndefined \<Rightarrow> Some []
                  | _ \<Rightarrow> None),
      hashPersonalMessage = (\<lambda>b. Some [0x44]),
      ecsign = (\<lambda>h k. Some \<lparr>sig_v = 27, sig_r = replicate 32 1, sig_s = replicate 32 2\<rparr>)\<rparr>"

text \<open>
  Typed data whose \<^verbatim>\<open>primaryType\<close> is the empty string, a struct type of its schema, and
  typed data with a \<^verbatim>\<open>null\<close> domain; both carry a key that is not recognized.
\<close>

definition empty_primaryType :: "(string \<times> jsval) list" where
  "empty_primaryType =
     [(''types'', JObj [(''EIP712Domain'', JArr []), ('''', JArr [])]),
      (''primaryType'', JStr ''''),
      (''domain'', JObj []),
      (''message'', JObj []),
      (''extra'', JNum 1)]"

definition null_domain :: "(string \<times> jsval) list" where
  "null_domain =
     [(''types'', JObj [(''EIP712Domain'', JArr []),
                       (''Person'', JArr [JObj [(''name'', JStr ''name''), (''type'', JStr ''string'')]])]),
      (''primaryType'', JStr ''Person''),
      (''domain'', JNull),
      (''message'', JObj [(''name'', JStr ''Bob'')]),
      (''extra'', JNum 1)]"

text \<open>A legacy list of two named entries.\<close>

definition legacy_example :: "typed_entry list" where
  "legacy_example =
     [\<lparr>ename = Some ''Message'', etype = ''string'', evalue = JStr ''Hi, Alice!''\<rparr>,
      \<lparr>ename = Some ''A number'', etype = ''uint32'', evalue = JNum 1337\<rparr>]"

section \<open>Properties of the type graph\<close>

lemma findTypeDependencies_grows:
  "findTypeDependencies p S r = Inr out \<Longrightarrow> set r \<subseteq> set out"
  "findTypeDependencies_fields fs S r = Inr out \<Longrightarrow> set r \<subseteq> set out"
proof (induction p S r and fs S r arbitrary: out and out
         rule: findTypeDependencies_findTypeDependencies_fields.induct)
  case (1 primaryType types results)
  show ?case
  proof (cases "primaryType \<in> set results")
    case True
    with 1(2) show ?thesis by (simp add: findTypeDependencies.simps)
  next
    case False
    show ?thesis
    proof (cases "typeEntry types (key_of primaryType)")
      case Absent
      with False 1(2) show ?thesis by (simp add: findTypeDependencies.simps)
    next
      case Inherited
      with False 1(2) show ?thesis by (simp add: findTypeDependencies.simps)
    next
      case (Own children)
      with False 1(2)
      have "findTypeDependencies_fields children types (results @ [primaryType]) = Inr out"
        by (simp add: findTypeDependencies.simps)
      from 1(1)[OF False Own this] show ?thesis by simp
    qed
  qed
next
  case (2 types results)
  then show ?case by simp
next
  case (3 field rest types results)
  from 3(3) obtain deps where
    deps: "findTypeDependencies (TStr (type field)) types results = Inr deps"
    and rest: "findTypeDependencies_fields rest types (merge_deps 0 deps) = Inr out"
    by (auto simp: merge_deps_id split: sum.splits)
  from 3(1)[OF deps] have "set results \<subseteq> set deps" .
  moreover from 3(2)[OF deps rest] have "set deps \<subseteq> set out" by (simp add: merge_deps_id)
  ultimately show ?case by simp
qed


























section \<open>Properties of the struct encoder\<close>

lemma andThen_simps [simp]:
  "andThen (Inl e) f = Inl e"
  "andThen (Inr x) f = f x"
  by (simp_all add: andThen_def)

lemma lib_simps [simp]:
  "lib None = Inl LibraryError"
  "lib (Some x) = Inr x"
  by (simp_all add: lib_def)
















section \<open>Properties of the signer\<close>

lemma sanitizeData_JObj:
  "sanitizeData (JObj kvs) =
     Inr (map (\<lambda>k. (k, propOf kvs k))
            (filter (\<lambda>k. truthy (propOf kvs k)) TYPED_MESSAGE_SCHEMA_properties))"
  by (simp add: sanitizeData_def TYPED_MESSAGE_SCHEMA_properties_def)

lemma recognized_not_inherited:
  "k \<in> set TYPED_MESSAGE_SCHEMA_properties \<Longrightarrow> k \<notin> set Object_prototype"
  by (auto simp: TYPED_MESSAGE_SCHEMA_properties_def Object_prototype_def)

lemma propOf_sanitized:
  assumes "k \<in> set TYPED_MESSAGE_SCHEMA_properties"
  shows "propOf (map (\<lambda>k. (k, propOf kvs k))
            (filter (\<lambda>k. truthy (propOf kvs k)) TYPED_MESSAGE_SCHEMA_properties)) k = kept kvs k"
proof -
  let ?sd = "map (\<lambda>k. (k, propOf kvs k))
               (filter (\<lambda>k. truthy (propOf kvs k)) TYPED_MESSAGE_SCHEMA_properties)"
  have "map_of ?sd k = (if truthy (propOf kvs k) then Some (propOf kvs k) else None)"
    using assms by (auto simp: TYPED_MESSAGE_SCHEMA_properties_def)
  with recognized_not_inherited[OF assms] show ?thesis
    by (simp add: kept_def propOf_def[of ?sd])
qed

lemma propOf_sanitized_keys:
  "propOf (map (\<lambda>k. (k, propOf kvs k))
     (filter (\<lambda>k. truthy (propOf kvs k)) TYPED_MESSAGE_SCHEMA_properties)) ''types''
     = kept kvs ''types''"
  "propOf (map (\<lambda>k. (k, propOf kvs k))
     (filter (\<lambda>k. truthy (propOf kvs k)) TYPED_MESSAGE_SCHEMA_properties)) ''primaryType''
     = kept kvs ''primaryType''"
  "propOf (map (\<lambda>k. (k, propOf kvs k))
     (filter (\<lambda>k. truthy (propOf kvs k)) TYPED_MESSAGE_SCHEMA_properties)) ''domain''
     = kept kvs ''domain''"
  "propOf (map (\<lambda>k. (k, propOf kvs k))
     (filter (\<lambda>k. truthy (propOf kvs k)) TYPED_MESSAGE_SCHEMA_properties)) ''message''
     = kept kvs ''message''"
  by (rule propOf_sanitized, simp add: TYPED_MESSAGE_SCHEMA_properties_def)+

text \<open>
  Claim C1, as stated: \<^verbatim>\<open>sign\<close> restricts the input to the four recognized top-level
  keys and hashes its \<^verbatim>\<open>domain\<close> and \<^verbatim>\<open>message\<close> under \<^verbatim>\<open>types\<close> and
  \<^verbatim>\<open>primaryType\<close>. It fails where a recognized key has a falsy value. With
  \<^verbatim>\<open>primaryType\<close> the empty string (a struct type of the schema here) the restricted input
  still holds \<^verbatim>\<open>primaryType\<close> and its hash exists, while \<^verbatim>\<open>sanitizeData\<close> drops the key
  and \<^verbatim>\<open>sign\<close> raises \<^verbatim>\<open>No type definition specified: undefined\<close>.
\<close>

theorem sign_counterexample:
  "sign demo_prims (JObj empty_primaryType) = Inl (UnknownType ''undefined'')
   \<and> sign_as_stated demo_prims empty_primaryType = Inr [0x11]
   \<and> sanitizeData (JObj empty_primaryType) \<noteq> Inr (restrict_keys empty_primaryType)"
  by code_simp

text \<open>
  Claim C1, amended: for every typedData object, \<^verbatim>\<open>sign\<close> first keeps, of the four
  recognized top-level keys (types, primaryType, domain, message), those whose value is
  truthy, dropping everything else, and then returns Keccak256 of the two bytes 0x19 0x01,
  \<^verbatim>\<open>hashStruct("EIP712Domain", domain, types)\<close> and
  \<^verbatim>\<open>hashStruct(primaryType, message, types)\<close>, where a dropped key reads \<^verbatim>\<open>undefined\<close>;
  a failure of either \<^verbatim>\<open>hashStruct\<close> is the failure of \<^verbatim>\<open>sign\<close>.
\<close>

theorem sign_sanitized:
  "sanitizeData (JObj kvs) =
     Inr (map (\<lambda>k. (k, propOf kvs k))
            (filter (\<lambda>k. truthy (propOf kvs k)) [''types'', ''primaryType'', ''domain'', ''message'']))
   \<and> sign E (JObj kvs) =
     andThen (hashStruct_js E (JStr ''EIP712Domain'') (kept kvs ''domain'') (kept kvs ''types''))
       (\<lambda>h1.
     andThen (hashStruct_js E (kept kvs ''primaryType'') (kept kvs ''message'') (kept kvs ''types''))
       (\<lambda>h2.
     lib (sha3 E (JBuf ([0x19, 0x01] @ h1 @ h2)))))
   \<and> (\<forall>S p. as_schema (propOf kvs ''types'') = Some S \<longrightarrow>
            propOf kvs ''primaryType'' = JStr p \<longrightarrow> p \<noteq> [] \<longrightarrow>
          sign E (JObj kvs) =
            andThen (hashStruct E (TStr ''EIP712Domain'') (kept kvs ''domain'') S) (\<lambda>h1.
            andThen (hashStruct E (TStr p) (kept kvs ''message'') S) (\<lambda>h2.
            lib (sha3 E (JBuf ([0x19, 0x01] @ h1 @ h2))))))"
proof -
  have eq: "sign E (JObj kvs) =
     andThen (hashStruct_js E (JStr ''EIP712Domain'') (kept kvs ''domain'') (kept kvs ''types''))
       (\<lambda>h1.
     andThen (hashStruct_js E (kept kvs ''primaryType'') (kept kvs ''message'') (kept kvs ''types''))
       (\<lambda>h2.
     lib (sha3 E (JBuf ([0x19, 0x01] @ h1 @ h2)))))"
    unfolding sign_def sanitizeData_JObj andThen_simps propOf_sanitized_keys
    by simp
  have typed: "sign E (JObj kvs) =
            andThen (hashStruct E (TStr ''EIP712Domain'') (kept kvs ''domain'') S) (\<lambda>h1.
            andThen (hashStruct E (TStr p) (kept kvs ''message'') S) (\<lambda>h2.
            lib (sha3 E (JBuf ([0x19, 0x01] @ h1 @ h2)))))"
    if S: "as_schema (propOf kvs ''types'') = Some S"
      and p: "propOf kvs ''primaryType'' = JStr p" "p \<noteq> []" for S p
  proof -
    from S obtain tys where tys: "propOf kvs ''types'' = JObj tys"
      by (cases "propOf kvs ''types''") simp_all
    then have kt: "kept kvs ''types'' = JObj tys" by (simp add: kept_def)
    from p have kp: "kept kvs ''primaryType'' = JStr p" by (simp add: kept_def)
    have js: "hashStruct_js E (JStr q) d (JObj tys) = hashStruct E (TStr q) d S" for q d
      using S tys by (simp add: hashStruct_js_def del: as_schema.simps)
    show ?thesis unfolding eq kt kp js ..
  qed
  from eq typed sanitizeData_JObj[of kvs] show ?thesis
    unfolding TYPED_MESSAGE_SCHEMA_properties_def by blast
qed

theorem sign_sanitized_witness:
  "sign demo_prims (JObj null_domain) = Inr [0x11]
   \<and> sanitizeData (JObj null_domain) =
       Inr [(''types'', propOf null_domain ''types''), (''primaryType'', JStr ''Person''),
            (''message'', JObj [(''name'', JStr ''Bob'')])]"
proof -
  have k: "kept null_domain ''domain'' = JUndefined"
    "kept null_domain ''primaryType'' = JStr ''Person''"
    "kept null_domain ''message'' = JObj [(''name'', JStr ''Bob'')]"
    "kept null_domain ''types'' = propOf null_domain ''types''"
    by (simp_all add: kept_def null_domain_def propOf_def)
  have h1: "hashStruct_js demo_prims (JStr ''EIP712Domain'') JUndefined
              (propOf null_domain ''types'') = Inr [0x11]"
    by code_simp
  have h2: "hashStruct_js demo_prims (JStr ''Person'') (JObj [(''name'', JStr ''Bob'')])
              (propOf null_domain ''types'') = Inr [0x11]"
    by code_simp
  have t: "truthy (propOf null_domain ''types'')" "truthy (propOf null_domain ''primaryType'')"
    "\<not> truthy (propOf null_domain ''domain'')" "truthy (propOf null_domain ''message'')"
    "propOf null_domain ''primaryType'' = JStr ''Person''"
    "propOf null_domain ''message'' = JObj [(''name'', JStr ''Bob'')]"
    by (simp_all add: null_domain_def propOf_def)
  from sign_sanitized[of null_domain demo_prims, THEN conjunct1]
       sign_sanitized[of null_domain demo_prims, THEN conjunct2, THEN conjunct1]
  show ?thesis
    unfolding k h1 h2 by (simp add: t demo_prims_def)
qed

lemma propOf_filter:
  assumes "k \<notin> set Object_prototype"
  shows "propOf (filter (\<lambda>(k', v). k' \<noteq> k) kvs) k' =
           (if k' = k then JUndefined else propOf kvs k')"
proof -
  have "map_of (filter (\<lambda>(k', v). k' \<noteq> k) kvs) k' = (if k' = k then None else map_of kvs k')"
    by (induction kvs) auto
  with assms show ?thesis by (simp add: propOf_def)
qed

text \<open>
  Claim C10: \<^verbatim>\<open>sanitizeData\<close> (and hence \<^verbatim>\<open>sign\<close>) drops a recognized top-level key
  whenever its value is falsy, not only when it is absent: the key is not in the sanitized
  object, reading it gives \<^verbatim>\<open>undefined\<close>, and the sanitized object and the result of
  \<^verbatim>\<open>sign\<close> are those of the input without that key.
\<close>

theorem sanitizeData_drops_falsy:
  assumes "k \<in> set TYPED_MESSAGE_SCHEMA_properties" and "\<not> truthy (propOf kvs k)"
  shows "\<exists>sanitizedData.
           sanitizeData (JObj kvs) = Inr sanitizedData
         \<and> k \<notin> fst ` set sanitizedData
         \<and> propOf sanitizedData k = JUndefined
         \<and> sanitizeData (JObj (filter (\<lambda>(k', v). k' \<noteq> k) kvs)) = Inr sanitizedData
         \<and> sign E (JObj kvs) = sign E (JObj (filter (\<lambda>(k', v). k' \<noteq> k) kvs))"
proof -
  let ?kvs' = "filter (\<lambda>(k', v). k' \<noteq> k) kvs"
  let ?sd = "map (\<lambda>k. (k, propOf kvs k))
               (filter (\<lambda>k. truthy (propOf kvs k)) TYPED_MESSAGE_SCHEMA_properties)"
  have same: "truthy (propOf ?kvs' k') = truthy (propOf kvs k')
              \<and> (truthy (propOf kvs k') \<longrightarrow> propOf ?kvs' k' = propOf kvs k')" for k'
    using assms(2) by (simp add: propOf_filter[OF recognized_not_inherited[OF assms(1)]])
  have "map (\<lambda>k. (k, propOf ?kvs' k)) (filter (\<lambda>k. truthy (propOf ?kvs' k)) ks) =
        map (\<lambda>k. (k, propOf kvs k)) (filter (\<lambda>k. truthy (propOf kvs k)) ks)" for ks
    using same by (induction ks) auto
  then have eq: "sanitizeData (JObj ?kvs') = sanitizeData (JObj kvs)"
    by (simp only: sanitizeData_JObj)
  have 1: "sanitizeData (JObj kvs) = Inr ?sd" by (rule sanitizeData_JObj)
  have 2: "k \<notin> fst ` set ?sd" using assms(2) by (auto simp: image_iff)
  have 3: "propOf ?sd k = JUndefined"
    using assms(2) by (simp add: propOf_sanitized[OF assms(1)] kept_def)
  have 4: "sign E (JObj kvs) = sign E (JObj ?kvs')"
    by (simp add: sign_def eq)
  from 1 2 3 4 eq show ?thesis by simp
qed

theorem sanitizeData_drops_falsy_witness:
  "(\<exists>sanitizedData.
       sanitizeData (JObj empty_primaryType) = Inr sanitizedData
     \<and> ''primaryType'' \<notin> fst ` set sanitizedData
     \<and> propOf sanitizedData ''primaryType'' = JUndefined
     \<and> sanitizeData (JObj (filter (\<lambda>(k', v). k' \<noteq> ''primaryType'') empty_primaryType))
         = Inr sanitizedData
     \<and> sign demo_prims (JObj empty_primaryType)
         = sign demo_prims (JObj (filter (\<lambda>(k', v). k' \<noteq> ''primaryType'') empty_primaryType)))
   \<and> (\<exists>sanitizedData.
       sanitizeData (JObj null_domain) = Inr sanitizedData
     \<and> ''domain'' \<notin> fst ` set sanitizedData
     \<and> propOf sanitizedData ''domain'' = JUndefined
     \<and> sanitizeData (JObj (filter (\<lambda>(k', v). k' \<noteq> ''domain'') null_domain)) = Inr sanitizedData
     \<and> sign demo_prims (JObj null_domain)
         = sign demo_prims (JObj (filter (\<lambda>(k', v). k' \<noteq> ''domain'') null_domain)))"
proof -
  have p: "''primaryType'' \<in> set TYPED_MESSAGE_SCHEMA_properties"
    and d: "''domain'' \<in> set TYPED_MESSAGE_SCHEMA_properties"
    by (simp_all add: TYPED_MESSAGE_SCHEMA_properties_def)
  have fp: "\<not> truthy (propOf empty_primaryType ''primaryType'')"
    by (simp add: empty_primaryType_def propOf_def)
  have fd: "\<not> truthy (propOf null_domain ''domain'')"
    by (simp add: null_domain_def propOf_def)
  from sanitizeData_drops_falsy[OF p fp, of demo_prims]
       sanitizeData_drops_falsy[OF d fd, of demo_prims]
  show ?thesis by (rule conjI)
qed

section \<open>Properties of the legacy path\<close>

lemma mapM_e_all:
  "(\<forall>x \<in> set xs. \<exists>y. f x = Inr y) \<Longrightarrow> mapM_e f xs = Inr (map (\<lambda>x. projr (f x)) xs)"
  by (induction xs) auto

lemma mapM_e_fail:
  "x \<in> set xs \<Longrightarrow> f x = Inl e \<Longrightarrow> (\<forall>y \<in> set xs. \<forall>e'. f y = Inl e' \<longrightarrow> e' = e)
     \<Longrightarrow> mapM_e f xs = Inl e"
proof (induction xs)
  case Nil
  then show ?case by simp
next
  case (Cons a xs)
  show ?case
  proof (cases "f a")
    case (Inl e')
    with Cons.prems(3) have "e' = e" by simp
    with Inl show ?thesis by simp
  next
    case (Inr y)
    have "x \<noteq> a" using Inr Cons.prems(2) by auto
    with Cons.prems(1) have x: "x \<in> set xs" by simp
    have "\<forall>y \<in> set xs. \<forall>e'. f y = Inl e' \<longrightarrow> e' = e"
      using Cons.prems(3) by simp
    with x Cons.prems(2) have "mapM_e f xs = Inl e" by (rule Cons.IH)
    with Inr show ?thesis by simp
  qed
qed

lemma schema_strings:
  "mapM_e (\<lambda>e. case ename e of
                  None \<Rightarrow> Inl InvalidInput
                | Some n \<Rightarrow> if n = [] then Inl InvalidInput
                            else Inr (JStr (etype e @ '' '' @ n))) typedData =
     (if \<exists>e \<in> set typedData. \<not> named e then Inl InvalidInput
      else Inr (map schema_string typedData))"
proof -
  let ?g = "\<lambda>e. case ename e of None \<Rightarrow> Inl InvalidInput
                 | Some n \<Rightarrow> if n = [] then Inl InvalidInput else Inr (JStr (etype e @ '' '' @ n))"
  have g_named: "named e \<Longrightarrow> ?g e = Inr (schema_string e)" for e
    by (auto simp: named_def schema_string_def split: option.splits)
  have g_unnamed: "\<not> named e \<Longrightarrow> ?g e = Inl InvalidInput" for e
    by (auto simp: named_def split: option.splits)
  have g_err: "?g e = Inl e' \<Longrightarrow> e' = InvalidInput" for e e'
    by (auto split: option.splits if_splits)
  show ?thesis
  proof (cases "\<exists>e \<in> set typedData. \<not> named e")
    case True
    then obtain e where e: "e \<in> set typedData" "\<not> named e" by blast
    have "mapM_e ?g typedData = Inl InvalidInput"
    proof (rule mapM_e_fail[where x = e])
      show "e \<in> set typedData" by fact
      show "?g e = Inl InvalidInput" using e(2) by (rule g_unnamed)
      show "\<forall>y \<in> set typedData. \<forall>e'. ?g y = Inl e' \<longrightarrow> e' = InvalidInput"
        using g_err by blast
    qed
    with True show ?thesis by (simp only: if_True)
  next
    case False
    then have "\<forall>e \<in> set typedData. \<exists>y. ?g e = Inr y" using g_named by blast
    then have "mapM_e ?g typedData = Inr (map (\<lambda>e. projr (?g e)) typedData)"
      by (rule mapM_e_all)
    also have "map (\<lambda>e. projr (?g e)) typedData = map schema_string typedData"
      using False g_named by (intro map_cong) auto
    finally have "mapM_e ?g typedData = Inr (map schema_string typedData)" .
    with False show ?thesis by (simp only: if_False)
  qed
qed

text \<open>
  Claim C7, as stated: \<^verbatim>\<open>typedSignatureHashBuffer\<close> fails with the invalid-input error
  when any entry lacks a name. The values of the \<^verbatim>\<open>bytes\<close> entries are converted by
  \<^verbatim>\<open>ethUtil.toBuffer\<close> before the names are looked at, so an exception of the conversion
  comes first: here the only entry has no name and the \<^verbatim>\<open>bytes\<close> value \<^verbatim>\<open>true\<close>, on
  which \<^verbatim>\<open>ethUtil.toBuffer\<close> raises \<^verbatim>\<open>invalid type\<close>.
\<close>

theorem typedSignatureHashBuffer_counterexample:
  "typedSignatureHashBuffer demo_prims [\<lparr>ename = None, etype = ''bytes'', evalue = JBool True\<rparr>]
     = Inl LibraryError"
  by (simp add: typedSignatureHashBuffer_def demo_prims_def)

text \<open>
  Claim C7, amended: \<^verbatim>\<open>typedSignatureHashBuffer\<close> fails with the invalid-input error when
  its argument list is empty. On a non-empty list it first converts the values of the
  \<^verbatim>\<open>bytes\<close> entries with \<^verbatim>\<open>ethUtil.toBuffer\<close>, whose exception it passes on; then it fails
  with the invalid-input error when any entry lacks a name (none, or an empty one), and
  otherwise returns \<^verbatim>\<open>soliditySHA3\<close> (Keccak256 of the tight packing) of the pair made of
  \<^verbatim>\<open>soliditySHA3\<close> of the \<^verbatim>\<open>"type name"\<close> strings and \<^verbatim>\<open>soliditySHA3\<close> of the types and
  converted values, an exception of the packer being passed on.
\<close>

theorem typedSignatureHashBuffer_cases:
  "typedSignatureHashBuffer E typedData =
     (if typedData = [] then Inl InvalidInput
      else
        andThen (mapM_e (convert_value E) typedData) (\<lambda>data.
        if \<exists>e \<in> set typedData. \<not> named e then Inl InvalidInput
        else
          andThen (lib (soliditySHA3 E (replicate (length typedData) ''string'')
                     (map schema_string typedData))) (\<lambda>h1.
          andThen (lib (soliditySHA3 E (map etype typedData) data)) (\<lambda>h2.
          lib (soliditySHA3 E [''bytes32'', ''bytes32''] [JBuf h1, JBuf h2])))))"
proof -
  have conv: "(\<lambda>e. if etype e = ''bytes''
                   then andThen (lib (toBuffer E (evalue e))) (\<lambda>b. Inr (JBuf b))
                   else Inr (evalue e)) = convert_value E"
    by (simp add: convert_value_def[abs_def])
  show ?thesis
    unfolding typedSignatureHashBuffer_def conv Let_def schema_strings
    by (cases "mapM_e (convert_value E) typedData") simp_all
qed

theorem typedSignatureHashBuffer_cases_witness:
  "typedSignatureHashBuffer demo_prims legacy_example = Inr [0x33]"
proof -
  have ne: "legacy_example \<noteq> []" by (simp add: legacy_example_def)
  have conv: "mapM_e (convert_value demo_prims) legacy_example
                = Inr [JStr ''Hi, Alice!'', JNum 1337]"
    by (simp add: legacy_example_def convert_value_def)
  have nm: "\<not> (\<exists>e \<in> set legacy_example. \<not> named e)"
    by (simp add: legacy_example_def named_def)
  from typedSignatureHashBuffer_cases[of demo_prims legacy_example]
  show ?thesis
    unfolding conv using ne nm by (simp add: demo_prims_def)
qed

section \<open>Properties of normalize\<close>















section \<open>Properties of the signing entry points\<close>

lemma finish_signature_fails: "finish_signature E sig = Inl TypeError"
  by (simp add: finish_signature_def module_this_def)

text \<open>
  Claim C9: for every private key and message parameters, \<^verbatim>\<open>personalSign\<close>,
  \<^verbatim>\<open>signTypedDataLegacy\<close> and \<^verbatim>\<open>signTypedData\<close> never return: once the message hash and
  the ECDSA signature are computed each reads \<^verbatim>\<open>this.concatSig\<close> with \<^verbatim>\<open>this\<close>
  undefined, which raises a \<open>TypeError\<close>; an earlier step that fails raises its own error.
\<close>

theorem signing_entry_points_fail:
  "finish_signature E sig = Inl TypeError
   \<and> personalSign E privateKey msgParams =
       andThen (getProp msgParams ''data'') (\<lambda>d.
       andThen (lib (toBuffer E d)) (\<lambda>message.
       andThen (lib (hashPersonalMessage E message)) (\<lambda>msgHash.
       andThen (lib (ecsign E msgHash privateKey)) (\<lambda>sig. Inl TypeError))))
   \<and> signTypedDataLegacy E privateKey msgParams =
       andThen (getProp msgParams ''data'') (\<lambda>d.
       andThen (typedSignatureHashBuffer_js E d) (\<lambda>msgHash.
       andThen (lib (ecsign E msgHash privateKey)) (\<lambda>sig. Inl TypeError)))
   \<and> signTypedData E privateKey msgParams =
       andThen (getProp msgParams ''data'') (\<lambda>d.
       andThen (sign E d) (\<lambda>message.
       andThen (lib (ecsign E message privateKey)) (\<lambda>sig. Inl TypeError)))
   \<and> (\<forall>out. personalSign E privateKey msgParams \<noteq> Inr out)
   \<and> (\<forall>out. signTypedDataLegacy E privateKey msgParams \<noteq> Inr out)
   \<and> (\<forall>out. signTypedData E privateKey msgParams \<noteq> Inr out)"
  by (auto simp: personalSign_def signTypedDataLegacy_def signTypedData_def
        finish_signature_fails andThen_def split: sum.splits)

theorem signing_entry_points_fail_witness:
  "personalSign demo_prims (JStr ''0x01'') (JObj [(''data'', JStr ''0x68656c6c6f'')]) = Inl TypeError"
proof -
  have b: "toBuffer demo_prims (JStr ''0x68656c6c6f'') = Some [0x68, 0x65, 0x6c, 0x6c, 0x6f]"
    by code_simp
  from signing_entry_points_fail[of demo_prims _ "JStr ''0x01''"
         "JObj [(''data'', JStr ''0x68656c6c6f'')]", THEN conjunct2, THEN conjunct1]
  have "personalSign demo_prims (JStr ''0x01'') (JObj [(''data'', JStr ''0x68656c6c6f'')]) =
       andThen (getProp (JObj [(''data'', JStr ''0x68656c6c6f'')]) ''data'') (\<lambda>d.
       andThen (lib (toBuffer demo_prims d)) (\<lambda>message.
       andThen (lib (hashPersonalMessage demo_prims message)) (\<lambda>msgHash.
       andThen (lib (ecsign demo_prims msgHash (JStr ''0x01''))) (\<lambda>sig. Inl TypeError))))" .
  then show ?thesis by (simp add: propOf_def b) (simp add: demo_prims_def)
qed

section \<open>Properties of the signature codec\<close>

lemma be_to_nat_snoc: "be_to_nat (bs @ [b]) = 256 * be_to_nat bs + unat b"
  by simp

lemma be_to_nat_Nil: "be_to_nat [] = 0"
  by simp

declare be_to_nat.simps [simp del]

lemma unat_byte_less: "unat (b :: 8 word) < 256"
proof -
  have "unat b < 2 ^ LENGTH(8)" by (rule unsigned_less)
  then show ?thesis by simp
qed

lemma be_to_nat_bound: "be_to_nat bs < 256 ^ length bs"
proof (induction bs rule: rev_induct)
  case Nil
  then show ?case by (simp add: be_to_nat_Nil)
next
  case (snoc b bs)
  have "256 * be_to_nat bs + unat b < 256 * be_to_nat bs + 256"
    using unat_byte_less[of b] by simp
  also have "\<dots> = 256 * (be_to_nat bs + 1)" by simp
  also have "\<dots> \<le> 256 * 256 ^ length bs"
    using snoc by (intro mult_le_mono2) simp
  finally show ?case by (simp add: be_to_nat_snoc)
qed

lemma be_to_nat_zero: "be_to_nat bs = 0 \<longleftrightarrow> (\<forall>b \<in> set bs. b = 0)"
proof (induction bs rule: rev_induct)
  case Nil
  then show ?case by (simp add: be_to_nat_Nil)
next
  case (snoc b bs)
  then show ?case by (auto simp: be_to_nat_snoc unat_eq_0)
qed

lemma nat_to_be_be_to_nat: "nat_to_be (be_to_nat bs) = strip_zeros bs"
proof (induction bs rule: rev_induct)
  case Nil
  then show ?case by (simp add: be_to_nat_Nil nat_to_be.simps strip_zeros_def)
next
  case (snoc b bs)
  show ?case
  proof (cases "be_to_nat bs = 0")
    case True
    then have z: "\<forall>x \<in> set bs. x = 0" by (simp add: be_to_nat_zero)
    then have dw: "dropWhile (\<lambda>b. b = 0) (bs @ [b]) = dropWhile (\<lambda>b. b = 0) [b]"
      by (simp add: dropWhile_append2)
    have "nat_to_be (be_to_nat (bs @ [b])) = [b]"
      using True unat_byte_less[of b] by (simp add: be_to_nat_snoc nat_to_be.simps)
    then show ?thesis by (simp add: strip_zeros_def dw)
  next
    case False
    then have nz: "\<not> (\<forall>x \<in> set bs. x = 0)" by (simp add: be_to_nat_zero)
    then have ne: "dropWhile (\<lambda>b. b = 0) bs \<noteq> []" by (simp add: dropWhile_eq_Nil_conv)
    then have sz: "strip_zeros bs = dropWhile (\<lambda>b. b = 0) bs"
      by (cases "dropWhile (\<lambda>b. b = 0) bs") (simp_all add: strip_zeros_def)
    from nz have dw: "dropWhile (\<lambda>b. b = 0) (bs @ [b]) = dropWhile (\<lambda>b. b = 0) bs @ [b]"
      by (auto simp: dropWhile_append1)
    have ge: "\<not> 256 * be_to_nat bs + unat b < 256" using False by simp
    have "(256 * be_to_nat bs + unat b) div 256 = be_to_nat bs"
      using unat_byte_less[of b] by simp
    moreover have "(of_nat ((256 * be_to_nat bs + unat b) mod 256) :: 8 word) = b"
      using unat_byte_less[of b] by simp
    ultimately have "nat_to_be (be_to_nat (bs @ [b])) = nat_to_be (be_to_nat bs) @ [b]"
      using ge by (simp add: be_to_nat_snoc nat_to_be.simps[of "256 * be_to_nat bs + unat b"])
    moreover have "strip_zeros (bs @ [b]) = dropWhile (\<lambda>b. b = 0) bs @ [b]"
      using ne by (cases "dropWhile (\<lambda>b. b = 0) bs") (simp_all add: strip_zeros_def dw)
    ultimately show ?thesis using snoc sz by simp
  qed
qed

lemma be_to_nat_nat_to_be: "be_to_nat (nat_to_be n) = n"
proof (induction n rule: nat_to_be.induct)
  case (1 n)
  show ?case
  proof (cases "n < 256")
    case True
    then show ?thesis
      using be_to_nat_snoc[of "[]" "of_nat n"]
      by (simp add: nat_to_be.simps be_to_nat_Nil unat_of_nat)
  next
    case False
    have "unat (of_nat (n mod 256) :: 8 word) = n mod 256"
      by (simp add: unat_of_nat)
    with False 1 show ?thesis
      by (simp add: nat_to_be.simps[of n] be_to_nat_snoc)
  qed
qed

lemma hex_val_hexdigit: "n < 16 \<Longrightarrow> hex_val (hexdigit n) = Some n"
proof -
  assume "n < 16"
  then have mem: "n \<in> set [0..<16]" by simp
  have "list_all (\<lambda>k. hex_val (hexdigit k) = Some k) [0..<16]"
    by code_simp
  then have "\<forall>k \<in> set [0..<16]. hex_val (hexdigit k) = Some k"
    unfolding list_all_iff .
  from this mem show ?thesis by (rule bspec)
qed

lemma byte_of_nibbles: "(of_nat (16 * (unat b div 16) + unat b mod 16) :: 8 word) = b"
  by simp

lemma from_hex_toString_hex: "from_hex (toString_hex bs) = Some bs"
proof (induction bs)
  case Nil
  then show ?case by (simp add: toString_hex_def)
next
  case (Cons b bs)
  have d: "unat b div 16 < 16" using unat_byte_less[of b] by simp
  have m: "unat b mod 16 < 16" by simp
  from Cons have "from_hex (concat (map hex_of_byte bs)) = Some bs"
    by (simp add: toString_hex_def)
  then show ?case
    by (simp add: toString_hex_def hex_of_byte_def hex_val_hexdigit[OF d] hex_val_hexdigit[OF m]
             byte_of_nibbles del: of_nat_add of_nat_mult)
qed

lemma toString_hex_append: "toString_hex (a @ b) = toString_hex a @ toString_hex b"
  by (simp add: toString_hex_def)

lemma length_toString_hex: "length (toString_hex bs) = 2 * length bs"
  by (induction bs) (simp_all add: toString_hex_def hex_of_byte_def)

lemma padWithZeroes_eq: "padWithZeroes str n = replicate (n - length str) CHR ''0'' @ str"
proof (induction str n rule: padWithZeroes.induct)
  case (1 myString len)
  show ?case
  proof (cases "length myString < len")
    case True
    then have "len - length myString = Suc (len - Suc (length myString))" by simp
    with True 1 show ?thesis
      by (subst padWithZeroes.simps) (simp add: replicate_app_Cons_same)
  next
    case False
    then show ?thesis by (subst padWithZeroes.simps) simp
  qed
qed

lemma toString_hex_zeros: "toString_hex (replicate k 0) = replicate (2 * k) CHR ''0''"
  by (induction k) (simp_all add: toString_hex_def hex_of_byte_def hexdigit_def)

lemma split_zeros:
  "bs = replicate (length (takeWhile (\<lambda>b. b = 0) bs)) (0 :: 8 word) @ dropWhile (\<lambda>b. b = 0) bs"
proof -
  have "takeWhile (\<lambda>b. b = 0) bs = replicate (length (takeWhile (\<lambda>b. b = 0) bs)) (0 :: 8 word)"
    by (intro replicate_length_same[symmetric]) (auto dest: set_takeWhileD)
  then show ?thesis using takeWhile_dropWhile_id[of "\<lambda>b. b = 0" bs] by metis
qed

lemma pad_hex_strip:
  assumes "bs \<noteq> []"
  shows "padWithZeroes (toString_hex (strip_zeros bs)) (2 * length bs) = toString_hex bs"
proof (cases "dropWhile (\<lambda>b. b = 0) bs")
  case Nil
  then have all0: "\<forall>b \<in> set bs. b = 0" by (simp add: dropWhile_eq_Nil_conv)
  then have bs: "bs = replicate (length bs) 0" by (intro replicate_length_same[symmetric]) auto
  from assms obtain k where k: "length bs = Suc k" by (cases bs) auto
  have "strip_zeros bs = [0]" unfolding strip_zeros_def Nil by simp
  then have "toString_hex (strip_zeros bs) = ''00''"
    by (simp add: toString_hex_def hex_of_byte_def hexdigit_def)
  then have "padWithZeroes (toString_hex (strip_zeros bs)) (2 * length bs)
               = replicate (2 * length bs - 2) CHR ''0'' @ ''00''"
    by (simp add: padWithZeroes_eq)
  also have "\<dots> = replicate (2 * length bs) CHR ''0''"
    using k by (simp add: replicate_app_Cons_same)
  also have "\<dots> = toString_hex (replicate (length bs) 0)" by (simp add: toString_hex_zeros)
  finally show ?thesis using bs by simp
next
  case (Cons t ts)
  let ?z = "length (takeWhile (\<lambda>b. b = 0) bs)"
  let ?d = "dropWhile (\<lambda>b. b = 0) bs"
  have sz: "strip_zeros bs = ?d" using Cons by (simp add: strip_zeros_def)
  have len: "length bs = ?z + length ?d"
  proof -
    have "length (takeWhile (\<lambda>b. b = 0) bs @ ?d) = length bs"
      by (simp only: takeWhile_dropWhile_id)
    then show ?thesis unfolding length_append by (rule sym)
  qed
  have "padWithZeroes (toString_hex ?d) (2 * length bs)
          = replicate (2 * ?z) CHR ''0'' @ toString_hex ?d"
    using len by (simp add: padWithZeroes_eq length_toString_hex)
  also have "\<dots> = toString_hex (replicate ?z 0 @ ?d)"
    by (simp add: toString_hex_append toString_hex_zeros)
  also have "\<dots> = toString_hex bs" using split_zeros[of bs] by simp
  finally show ?thesis by (simp add: sz)
qed

lemma toUnsigned_fromSigned:
  assumes "length bs = 32"
  shows "toUnsigned (fromSigned bs) = strip_zeros bs"
proof -
  have "be_to_nat bs < 256 ^ 32" using be_to_nat_bound[of bs] assms by simp
  then have lt: "int (be_to_nat bs) < 2 ^ 256" by simp
  have "fromSigned bs mod 2 ^ 256 = int (be_to_nat bs)"
  proof (cases "int (be_to_nat bs) \<ge> 2 ^ 255")
    case True
    have "(int (be_to_nat bs) - 2 ^ 256) mod 2 ^ 256 = int (be_to_nat bs) mod 2 ^ 256"
      by (rule minus_mod_self2)
    also have "\<dots> = int (be_to_nat bs)" using lt by simp
    finally show ?thesis using True by (simp add: fromSigned_def Let_def)
  next
    case False
    then show ?thesis using lt by (simp add: fromSigned_def Let_def)
  qed
  then show ?thesis by (simp add: toUnsigned_def nat_to_be_be_to_nat)
qed

lemma hex_part:
  assumes "length bs = 32"
  shows "padWithZeroes (toString_hex (toUnsigned (fromSigned bs))) 64 = toString_hex bs"
proof -
  from assms have "bs \<noteq> []" by auto
  from pad_hex_strip[OF this] assms show ?thesis by (simp add: toUnsigned_fromSigned)
qed

lemma v_part:
  assumes "v = 27 \<or> v = 28"
  shows "stripHexPrefix (intToHex (bufferToInt v)) = toString_hex [of_nat v]"
  using assms
  by (auto simp: bufferToInt_def be_to_nat_nat_to_be intToHex_def stripHexPrefix_def
        hex_of_nat.simps toString_hex_def hex_of_byte_def hexdigit_def)

lemma hexdigit_not_x: "n < 16 \<Longrightarrow> hexdigit n \<noteq> CHR ''x''"
proof -
  assume "n < 16"
  then have "hexdigit n \<in> set ''0123456789abcdef''"
    unfolding hexdigit_def by (intro nth_mem) simp
  then show ?thesis by auto
qed

lemma toString_hex_not_prefixed:
  "take 2 (toString_hex bs @ rest) \<noteq> ''0x''" if "bs \<noteq> []"
proof -
  from that obtain b bs' where bs: "bs = b # bs'" by (cases bs) auto
  have "hexdigit (unat b mod 16) \<noteq> CHR ''x''" by (rule hexdigit_not_x) simp
  then show ?thesis by (simp add: bs toString_hex_def hex_of_byte_def)
qed

text \<open>
  Claim C4: for every \<open>v\<close> in \<open>{27, 28}\<close> and all 32-byte values \<open>r\<close> and \<open>s\<close>,
  \<^verbatim>\<open>fromRpcSig(concatSig(v, r, s))\<close> returns the triple \<open>(v, r, s)\<close>.
\<close>

theorem fromRpcSig_concatSig:
  assumes "v = 27 \<or> v = 28" and "length r = 32" and "length s = 32"
  shows "fromRpcSig (concatSig v r s) = Inr \<lparr>sig_v = v, sig_r = r, sig_s = s\<rparr>"
proof -
  let ?all = "r @ s @ [of_nat v :: 8 word]"
  have r: "r \<noteq> []" using assms(2) by auto
  have body: "padWithZeroes (toString_hex (toUnsigned (fromSigned r))) 64
            @ padWithZeroes (toString_hex (toUnsigned (fromSigned s))) 64
            @ stripHexPrefix (intToHex (bufferToInt v)) = toString_hex ?all"
    by (simp only: hex_part[OF assms(2)] hex_part[OF assms(3)] v_part[OF assms(1)]
          toString_hex_append)
  have "concatSig v r s = addHexPrefix (toString_hex ?all)"
    unfolding concatSig_def Let_def body ..
  also have "\<dots> = ''0x'' @ toString_hex ?all"
    using toString_hex_not_prefixed[OF r, of "toString_hex (s @ [of_nat v])"]
    by (simp add: addHexPrefix_def toString_hex_append)
  finally have c: "concatSig v r s = ''0x'' @ toString_hex ?all" .
  have "stripHexPrefix (''0x'' @ toString_hex ?all) = toString_hex ?all"
    by (simp add: stripHexPrefix_def)
  moreover have "padToEven (toString_hex ?all) = toString_hex ?all"
    by (simp add: padToEven_def length_toString_hex)
  ultimately have buf: "toBuffer_hex (concatSig v r s) = Inr ?all"
    by (simp add: toBuffer_hex_def c from_hex_toString_hex)
  have len: "length ?all = 65" using assms by simp
  have last: "?all ! 64 = of_nat v"
  proof -
    have "?all = (r @ s) @ [of_nat v]" by simp
    moreover have "length (r @ s) = 64" using assms by simp
    ultimately show ?thesis by (metis nth_append_length)
  qed
  have uv: "unat (of_nat v :: 8 word) = v"
    using assms(1) by (rule disjE) (simp_all add: unat_of_nat)
  have tr: "take 32 ?all = r" using assms(2) by simp
  have ts: "take 32 (drop 32 ?all) = s" using assms(2,3) by simp
  have nv: "\<not> v < 27" using assms(1) by (rule disjE) simp_all
  have "ethUtil_fromRpcSig ?all = Inr \<lparr>sig_v = v, sig_r = r, sig_s = s\<rparr>"
    unfolding ethUtil_fromRpcSig_def Let_def len last uv tr ts using nv by simp
  with buf show ?thesis by (simp add: fromRpcSig_def)
qed

theorem fromRpcSig_concatSig_witness:
  "fromRpcSig (concatSig 28 (replicate 32 0) (0xff # replicate 31 0x10)) =
     Inr \<lparr>sig_v = 28, sig_r = replicate 32 0, sig_s = 0xff # replicate 31 0x10\<rparr>"
  using fromRpcSig_concatSig[of 28 "replicate 32 0" "0xff # replicate 31 0x10"] by simp

end
